theory Spec2Isabelle
  imports Complex_Main "HOL-Library.Word"
begin

section \<open>OutfitFlowApi/app.py: background removal service\<close>

text \<open>
  The module has one image pipeline (\<open>optimize_image\<close>, \<open>process_image\<close>) and two request
  handlers (\<open>remove_background_single\<close>, \<open>remove_background_batch\<close>).  The image library,
  the removal model and the archive writer are libraries outside the module: their
  operations are parameters of the model, each returning either the exception it raises
  or its result; so are the two framework and library calls that can raise inside the
  handlers, the archive writer's \<open>writestr\<close> and the encoding of a response header.  Calls to the logger change no value the handlers return and are left out.

  Python \<open>str\<close> values are modelled as \<open>string\<close> holding the UTF-8 bytes of the text.  The
  module only searches for and adds ASCII characters (\<open>'.'\<close>, \<open>'image/'\<close>, digits, \<open>'_'\<close>,
  \<open>'.jpg'\<close>), and no byte of a multi-byte UTF-8 sequence is ASCII, so the operations agree
  with those on code points.
\<close>

subsection \<open>Exceptions\<close>

text \<open>
  \<open>HTTPException\<close> is a subclass of \<open>Exception\<close>; every other exception the module can meet
  is an \<open>OtherException\<close> carrying \<open>str(e)\<close>.
\<close>

datatype exn = HTTPException (status_code: nat) (detail: string) | OtherException string

type_synonym bytes = "8 word list"

definition try_bind :: "exn + 'a \<Rightarrow> ('a \<Rightarrow> exn + 'b) \<Rightarrow> exn + 'b" where
  "try_bind m f = (case m of Inl e \<Rightarrow> Inl e | Inr x \<Rightarrow> f x)"

subsection \<open>Decimal formatting and string operations\<close>

definition digit_char :: "nat \<Rightarrow> char" where
  "digit_char d = ''0123456789'' ! d"

fun str_nat :: "nat \<Rightarrow> string" where
  "str_nat n = (if n < 10 then [digit_char n] else str_nat (n div 10) @ [digit_char (n mod 10)])"

declare str_nat.simps [simp del]

text \<open>\<open>f"{idx:03d}"\<close> for a non-negative index: decimal, padded with zeros to three characters.\<close>

definition format_03d :: "nat \<Rightarrow> string" where
  "format_03d idx = replicate (3 - length (str_nat idx)) (CHR ''0'') @ str_nat idx"

definition startswith :: "string \<Rightarrow> string \<Rightarrow> bool" where
  "startswith s p = (take (length p) s = p)"

text \<open>
  \<open>s.rsplit(sep, 1)\<close> for a one-character separator: split at the last occurrence, or the
  whole string when there is none.
\<close>

definition rsplit1 :: "string \<Rightarrow> char \<Rightarrow> string list" where
  "rsplit1 s sep =
     (if sep \<in> set s
      then [rev (tl (dropWhile (\<lambda>c. c \<noteq> sep) (rev s))), rev (takeWhile (\<lambda>c. c \<noteq> sep) (rev s))]
      else [s])"

text \<open>\<open>str(e)\<close>; the framework prints an \<open>HTTPException\<close> as \<open>"{status_code}: {detail}"\<close>.\<close>

fun str_exn :: "exn \<Rightarrow> string" where
  "str_exn (OtherException m) = m"
| "str_exn (HTTPException c d) = str_nat c @ '': '' @ d"

subsection \<open>Double-precision arithmetic\<close>

text \<open>
  Python's \<open>float\<close> is IEEE binary64.  A finite double is a rational; every operation is the
  exact operation followed by rounding to 53 significant bits, nearest with ties to even.
  The exponent is left unbounded: the model agrees with binary64 on the normal range, which
  holds every value computed from image dimensions below \<open>2 ^ 31\<close>.
\<close>

text \<open>\<open>n.bit_length()\<close> for a non-negative int.\<close>

function bit_length :: "int \<Rightarrow> nat" where
  "bit_length n = (if n \<le> 0 then 0 else Suc (bit_length (n div 2)))"
  by pat_completeness auto
termination
  by (relation "measure nat") auto

declare bit_length.simps [simp del]

definition pow2 :: "int \<Rightarrow> rat" where
  "pow2 k = (if 0 \<le> k then 2 ^ nat k else 1 / 2 ^ nat (- k))"

text \<open>For \<open>x > 0\<close>: the integer \<open>e\<close> with \<open>2 ^ e \<le> x < 2 ^ (e + 1)\<close>.\<close>

definition binary_exponent :: "rat \<Rightarrow> int" where
  "binary_exponent x =
     (let (a, b) = quotient_of x;
          d = int (bit_length a) - int (bit_length b)
      in if pow2 d \<le> x then d else d - 1)"

definition round_half_even :: "rat \<Rightarrow> int" where
  "round_half_even x =
     (let f = \<lfloor>x\<rfloor>; r = x - of_int f
      in if r < 1 / 2 then f else if 1 / 2 < r then f + 1 else if even f then f else f + 1)"

definition round_double :: "rat \<Rightarrow> rat" where
  "round_double x =
     (if x = 0 then 0
      else let e = binary_exponent \<bar>x\<bar> - 52
           in of_int (round_half_even (x / pow2 e)) * pow2 e)"

text \<open>\<open>a / b\<close> on two ints (true division, correctly rounded), \<open>b\<close> not zero.\<close>

definition int_truediv :: "int \<Rightarrow> int \<Rightarrow> rat" where
  "int_truediv a b = round_double (of_int a / of_int b)"

text \<open>\<open>n * x\<close> for an int and a float: the int is converted to a float first.\<close>

definition int_mul_float :: "int \<Rightarrow> rat \<Rightarrow> rat" where
  "int_mul_float n x = round_double (round_double (of_int n) * x)"

text \<open>\<open>int(x)\<close> on a float: truncation toward zero.\<close>

definition int_of_float :: "rat \<Rightarrow> int" where
  "int_of_float x = (if 0 \<le> x then \<lfloor>x\<rfloor> else \<lceil>x\<rceil>)"

subsection \<open>Images and the library operations\<close>

record image =
  width :: int
  height :: int
  mode :: string
  pixels :: bytes

text \<open>
  A ZIP archive under construction: the entries it holds, each a stored name and its data,
  in the order they were added.
\<close>

type_synonym archive = "(string \<times> bytes) list"

text \<open>
  The operations of the image library and the removal model that \<open>process_image\<close> calls
  (\<open>paste\<close> mutates its receiver; here it returns the updated canvas), the archive
  writer's \<open>writestr\<close>, which returns the archive after the call or raises, and the Latin-1
  encoding the framework applies to a header value when a \<open>Response\<close> is built.
\<close>

record externals =
  Image_open :: "bytes \<Rightarrow> exn + image"
  convert :: "image \<Rightarrow> string \<Rightarrow> exn + image"
  resize_lanczos :: "image \<Rightarrow> int \<times> int \<Rightarrow> exn + image"
  remove :: "image \<Rightarrow> exn + image"
  Image_new :: "string \<Rightarrow> int \<times> int \<Rightarrow> nat \<times> nat \<times> nat \<times> nat \<Rightarrow> exn + image"
  paste :: "image \<Rightarrow> image \<Rightarrow> int \<times> int \<Rightarrow> image \<Rightarrow> exn + image"
  save_jpeg :: "image \<Rightarrow> nat \<Rightarrow> bool \<Rightarrow> exn + bytes"
  writestr :: "archive \<Rightarrow> string \<Rightarrow> bytes \<Rightarrow> exn + archive"
  encode_header :: "string \<Rightarrow> exn + bytes"

definition image_size :: "image \<Rightarrow> int \<times> int" where
  "image_size im = (width im, height im)"

subsection \<open>Configuration\<close>

definition MAX_IMAGE_WIDTH :: int where
  "MAX_IMAGE_WIDTH = 1024"

definition BACKGROUND_COLOR :: "nat \<times> nat \<times> nat \<times> nat" where
  "BACKGROUND_COLOR = (248, 249, 250, 255)"

definition MAX_BATCH_SIZE :: nat where
  "MAX_BATCH_SIZE = 15"

subsection \<open>The image pipeline\<close>

definition optimize_image :: "externals \<Rightarrow> image \<Rightarrow> exn + image" where
  "optimize_image ext im =
     (if width im > MAX_IMAGE_WIDTH
      then let ratio = int_truediv MAX_IMAGE_WIDTH (width im);
               new_height = int_of_float (int_mul_float (height im) ratio)
           in resize_lanczos ext im (MAX_IMAGE_WIDTH, new_height)
      else Inr im)"

text \<open>The mode test of \<open>process_image\<close> and the conversion it selects.\<close>

definition normalize :: "externals \<Rightarrow> image \<Rightarrow> exn + image" where
  "normalize ext im =
     (if mode im \<in> set [''RGBA'', ''LA'', ''P'']
      then convert ext im ''RGBA''
      else convert ext im ''RGB'')"

text \<open>The body of the \<open>try\<close> block of \<open>process_image\<close>.\<close>

definition process_image_body :: "externals \<Rightarrow> bytes \<Rightarrow> exn + bytes" where
  "process_image_body ext image_bytes =
     try_bind (Image_open ext image_bytes) (\<lambda>input_image.
     try_bind (normalize ext input_image) (\<lambda>input_image.
     try_bind (optimize_image ext input_image) (\<lambda>input_image.
     try_bind (remove ext input_image) (\<lambda>output_image.
     try_bind (Image_new ext ''RGBA'' (image_size output_image) BACKGROUND_COLOR) (\<lambda>background.
     try_bind (paste ext background output_image (0, 0) output_image) (\<lambda>background.
     try_bind (convert ext background ''RGB'') (\<lambda>final_image.
     save_jpeg ext final_image 90 True)))))))"

definition process_image :: "externals \<Rightarrow> bytes \<Rightarrow> exn + bytes" where
  "process_image ext image_bytes =
     (case process_image_body ext image_bytes of
        Inr img_bytes \<Rightarrow> Inr img_bytes
      | Inl e \<Rightarrow> Inl (HTTPException 500 (''Error procesando imagen: '' @ str_exn e)))"

subsection \<open>Requests and responses\<close>

text \<open>
  An uploaded file.  The framework gives \<open>content_type\<close> as \<open>None\<close> when the part declares
  none; \<open>read()\<close> returns the raw bytes.
\<close>

record upload =
  filename :: string
  content_type :: "string option"
  raw :: bytes

text \<open>
  A response body is raw bytes or, for the batch handler, the archive serialised.
\<close>

datatype content = Raw bytes | Zip archive

datatype response = Response (body: content) (media_type: string) (headers: "(string \<times> string) list")

text \<open>\<open>file.content_type.startswith('image/')\<close>; on \<open>None\<close> the attribute lookup raises.\<close>

definition is_image_type :: "upload \<Rightarrow> exn + bool" where
  "is_image_type file =
     (case content_type file of
        None \<Rightarrow> Inl (OtherException ([CHR 0x27] @ ''NoneType'' @ [CHR 0x27]
                 @ '' object has no attribute '' @ [CHR 0x27] @ ''startswith'' @ [CHR 0x27]))
      | Some ct \<Rightarrow> Inr (startswith ct ''image/''))"

subsection \<open>The single-image handler\<close>

text \<open>
  The body of the \<open>try\<close> block.  Building the \<open>Response\<close> encodes the header value, which
  holds the uploaded filename, and that raises inside the \<open>try\<close> when the encoding fails.
\<close>

definition content_disposition :: "string \<Rightarrow> string" where
  "content_disposition fn = ''attachment; filename='' @ [CHR 0x22] @ ''processed_'' @ fn @ [CHR 0x22]"

definition single_body :: "externals \<Rightarrow> upload \<Rightarrow> exn + response" where
  "single_body ext file =
     try_bind (is_image_type file) (\<lambda>ok.
       if \<not> ok then Inl (HTTPException 400 ''El archivo debe ser una imagen'')
       else try_bind (process_image ext (raw file)) (\<lambda>processed_bytes.
         try_bind (encode_header ext (content_disposition (filename file))) (\<lambda>encoded.
           Inr (Response (Raw processed_bytes) ''image/jpeg''
                 [(''Content-Disposition'', content_disposition (filename file))]))))"

definition remove_background_single :: "externals \<Rightarrow> upload \<Rightarrow> exn + response" where
  "remove_background_single ext file =
     (case single_body ext file of
        Inr r \<Rightarrow> Inr r
      | Inl (HTTPException c d) \<Rightarrow> Inl (HTTPException c d)
      | Inl e \<Rightarrow> Inl (HTTPException 500 (str_exn e)))"

subsection \<open>The batch handler\<close>

definition base_name :: "string \<Rightarrow> string" where
  "base_name fn = (if CHR ''.'' \<in> set fn then rsplit1 fn (CHR ''.'') ! 0 else fn)"

definition zip_filename :: "nat \<Rightarrow> string \<Rightarrow> string" where
  "zip_filename idx fn = format_03d idx @ ''_'' @ base_name fn @ ''.jpg''"

text \<open>
  The state of the loop: the archive as the writer left it and, as a trace of the effects,
  the indices of the items that were read and handed to \<open>process_image\<close> and the calls of
  \<open>writestr\<close> that were made, each with its name, its data and whether the call returned.
\<close>

record batch_state =
  entries :: archive
  processed :: "nat list"
  writes :: "(string \<times> bytes \<times> bool) list"

text \<open>
  One iteration.  Every exception raised inside the inner \<open>try\<close> is caught there and the
  loop continues, so an iteration always yields a state; when \<open>writestr\<close> raises, the
  archive stays as it was.
\<close>

definition batch_item :: "externals \<Rightarrow> nat \<times> upload \<Rightarrow> batch_state \<Rightarrow> batch_state" where
  "batch_item ext = (\<lambda>(idx, file) st.
     case is_image_type file of
       Inl e \<Rightarrow> st
     | Inr ok \<Rightarrow>
         if \<not> ok then st
         else (let st = st\<lparr>processed := processed st @ [idx]\<rparr>
               in (case process_image ext (raw file) of
                     Inl e \<Rightarrow> st
                   | Inr processed_bytes \<Rightarrow>
                       (let name = zip_filename idx (filename file)
                        in (case writestr ext (entries st) name processed_bytes of
                              Inl e \<Rightarrow> st\<lparr>writes := writes st @ [(name, processed_bytes, False)]\<rparr>
                            | Inr ar \<Rightarrow>
                                st\<lparr>entries := ar,
                                   writes := writes st @ [(name, processed_bytes, True)]\<rparr>)))))"

definition batch_loop :: "externals \<Rightarrow> upload list \<Rightarrow> batch_state" where
  "batch_loop ext files =
     fold (batch_item ext) (enumerate 0 files) \<lparr>entries = [], processed = [], writes = []\<rparr>"

text \<open>
  The handler returns what it raises or responds together with the trace of processed
  items.  Nothing outside the inner \<open>try\<close> raises anything but the two validation errors
  (the header of this \<open>Response\<close> is constant ASCII text, whose encoding cannot fail), so the
  outer \<open>except Exception\<close> has no case here.
\<close>

definition remove_background_batch :: "externals \<Rightarrow> upload list \<Rightarrow> (exn + response) \<times> nat list" where
  "remove_background_batch ext files =
     (if length files > MAX_BATCH_SIZE
      then (Inl (HTTPException 400
              (''M'' @ [CHR 0xC3, CHR 0xA1] @ ''ximo '' @ str_nat MAX_BATCH_SIZE @ '' im''
               @ [CHR 0xC3, CHR 0xA1] @ ''genes por lote. Recibidas: '' @ str_nat (length files))), [])
      else if length files = 0
      then (Inl (HTTPException 400 (''No se recibieron im'' @ [CHR 0xC3, CHR 0xA1] @ ''genes'')), [])
      else let st = batch_loop ext files
           in (Inr (Response (Zip (entries st)) ''application/zip''
                      [(''Content-Disposition'',
                        ''attachment; filename='' @ [CHR 0x22] @ ''processed_garments.zip'' @ [CHR 0x22])]),
               processed st))"

subsection \<open>Reading the results\<close>

text \<open>
  The status line the framework sends: 200 for a returned \<open>Response\<close> (no status is passed
  to its constructor), the exception's own code for an \<open>HTTPException\<close>, 500 for any other
  exception leaving a handler.
\<close>

fun status_of :: "exn + response \<Rightarrow> nat" where
  "status_of (Inr r) = 200"
| "status_of (Inl (HTTPException c d)) = c"
| "status_of (Inl (OtherException m)) = 500"

text \<open>An item passes the type test of the handlers.\<close>

definition declared_image :: "upload \<Rightarrow> bool" where
  "declared_image file = (case content_type file of None \<Rightarrow> False | Some ct \<Rightarrow> startswith ct ''image/'')"

text \<open>The call of \<open>writestr\<close> an item gives rise to, if any: its name and its data.\<close>

definition batch_entry :: "externals \<Rightarrow> nat \<times> upload \<Rightarrow> (string \<times> bytes) option" where
  "batch_entry ext = (\<lambda>(idx, file).
     if declared_image file
     then (case process_image ext (raw file) of
             Inl e \<Rightarrow> None
           | Inr out \<Rightarrow> Some (zip_filename idx (filename file), out))
     else None)"

text \<open>
  The archive writer's contract.  The writer stores an entry under the name it is given cut
  at the first NUL byte (the whole name when it has none); a call that returns has added
  exactly that entry, with the data, at the end of the archive.  Nothing is said of when
  a call returns: the writer refuses, for one, a name longer than 65535 bytes.
\<close>

definition stored_name :: "string \<Rightarrow> string" where
  "stored_name name = takeWhile (\<lambda>c. c \<noteq> CHR 0x00) name"

definition writestr_contract :: "externals \<Rightarrow> bool" where
  "writestr_contract ext =
     (\<forall>ar name data ar'. writestr ext ar name data = Inr ar' \<longrightarrow>
        ar' = ar @ [(stored_name name, data)])"

text \<open>The entries that a trace of \<open>writestr\<close> calls leaves in the archive under that contract.\<close>

definition stored_entries :: "(string \<times> bytes \<times> bool) list \<Rightarrow> archive" where
  "stored_entries ws =
     map (\<lambda>(name, data, ok). (stored_name name, data)) (filter (\<lambda>(name, data, ok). ok) ws)"

text \<open>The calls of a trace, name and data, without their outcome.\<close>

definition attempted :: "(string \<times> bytes \<times> bool) list \<Rightarrow> (string \<times> bytes) list" where
  "attempted ws = map (\<lambda>(name, data, ok). (name, data)) ws"




text \<open>The number a string of decimal digits denotes.\<close>

definition digit_value :: "char \<Rightarrow> nat" where
  "digit_value c = of_char c - 48"

definition nat_of_digits :: "string \<Rightarrow> nat" where
  "nat_of_digits s = foldl (\<lambda>a c. 10 * a + digit_value c) 0 s"

definition is_digit :: "char \<Rightarrow> bool" where
  "is_digit c = (c \<in> set ''0123456789'')"

subsection \<open>A small instance of the libraries\<close>

text \<open>
  A concrete image library for evaluating the handlers: a file is a magic byte \<open>0x89\<close>, a
  mode byte, a width byte (in units of 256 pixels), a height byte and the pixel data; the
  removal model fails on an image without pixels.  The archive writer cuts a name at its
  first NUL byte and refuses a name that is then longer than 65535 bytes, as the standard
  ZIP writer does; the header encoding is Latin-1 read off the UTF-8 bytes of the text.
\<close>

definition demo_writestr :: "archive \<Rightarrow> string \<Rightarrow> bytes \<Rightarrow> exn + archive" where
  "demo_writestr ar name data =
     (if 65535 < length (stored_name name)
      then Inl (OtherException ([CHR 0x27] @ ''H'' @ [CHR 0x27] @ '' format requires 0 <= number <= 65535''))
      else Inr (ar @ [(stored_name name, data)]))"

fun demo_latin1 :: "string \<Rightarrow> exn + bytes" where
  "demo_latin1 [] = Inr []"
| "demo_latin1 (c # cs) =
     (if (of_char c :: nat) < 0x80
      then try_bind (demo_latin1 cs) (\<lambda>bs. Inr (of_char c # bs))
      else (case cs of
              d # ds \<Rightarrow>
                if (of_char c :: nat) = 0xC2
                then try_bind (demo_latin1 ds) (\<lambda>bs. Inr (of_char d # bs))
                else if (of_char c :: nat) = 0xC3
                then try_bind (demo_latin1 ds) (\<lambda>bs. Inr ((of_char d + 0x40) # bs))
                else Inl (OtherException ''ordinal not in range(256)'')
            | [] \<Rightarrow> Inl (OtherException ''ordinal not in range(256)'')))"

definition demo_open :: "bytes \<Rightarrow> exn + image" where
  "demo_open bs =
     (case bs of
        m # md # w # h # px \<Rightarrow>
          if m = 0x89
          then Inr \<lparr>width = 256 * uint w, height = uint h,
                    mode = (if md = 0 then ''RGB'' else if md = 1 then ''P'' else ''PA''), pixels = px\<rparr>
          else Inl (OtherException ''cannot identify image file'')
      | _ \<Rightarrow> Inl (OtherException ''cannot identify image file''))"

definition demo_externals :: externals where
  "demo_externals =
     \<lparr>Image_open = demo_open,
      convert = (\<lambda>im m. Inr (im\<lparr>mode := m\<rparr>)),
      resize_lanczos = (\<lambda>im (w, h).
         if w < 1 \<or> h < 1 then Inl (OtherException ''height and width must be > 0'')
         else Inr (im\<lparr>width := w, height := h\<rparr>)),
      remove = (\<lambda>im. if pixels im = [] then Inl (OtherException ''empty image'') else Inr im),
      Image_new = (\<lambda>m (w, h) c. Inr \<lparr>width = w, height = h, mode = m, pixels = []\<rparr>),
      paste = (\<lambda>bg im pos mask. Inr (bg\<lparr>pixels := pixels im\<rparr>)),
      save_jpeg = (\<lambda>im q opt. Inr (0xFF # 0xD8 # pixels im)),
      writestr = demo_writestr,
      encode_header = demo_latin1\<rparr>"

definition demo_png :: upload where
  "demo_png = \<lparr>filename = ''shirt.front.png'', content_type = Some ''image/png'', raw = [0x89, 0, 1, 7, 42]\<rparr>"

definition demo_text :: upload where
  "demo_text = \<lparr>filename = ''notes.txt'', content_type = Some ''text/plain'', raw = [0x68, 0x69]\<rparr>"

definition demo_broken :: upload where
  "demo_broken = \<lparr>filename = ''broken'', content_type = Some ''image/jpeg'', raw = [0x68, 0x69]\<rparr>"

text \<open>An upload whose filename has a NUL byte: \<open>a\<close>, NUL, \<open>b.png\<close>.\<close>

definition demo_nul :: upload where
  "demo_nul = \<lparr>filename = ''a'' @ [CHR 0x00] @ ''b.png'', content_type = Some ''image/png'',
                raw = [0x89, 0, 1, 7, 42]\<rparr>"

subsection \<open>Steps of the pipeline\<close>

text \<open>
  The six steps of \<open>process_image\<close>: decoding, mode normalisation, resizing, background
  removal, compositing (new canvas, paste) and encoding (flattening to RGB, saving).
  \<open>step_fails ext b s e\<close>: on the bytes \<open>b\<close> the steps before \<open>s\<close> succeed and \<open>s\<close> raises \<open>e\<close>.
\<close>

datatype step = Decode | Normalize | Resize | Removal | Composite | Encode

inductive step_fails :: "externals \<Rightarrow> bytes \<Rightarrow> step \<Rightarrow> exn \<Rightarrow> bool" for ext :: externals and b :: bytes where
  decode_fails: "Image_open ext b = Inl e \<Longrightarrow> step_fails ext b Decode e"
| normalize_fails:
    "Image_open ext b = Inr i1 \<Longrightarrow> normalize ext i1 = Inl e \<Longrightarrow> step_fails ext b Normalize e"
| resize_fails:
    "Image_open ext b = Inr i1 \<Longrightarrow> normalize ext i1 = Inr i2 \<Longrightarrow> optimize_image ext i2 = Inl e
     \<Longrightarrow> step_fails ext b Resize e"
| removal_fails:
    "Image_open ext b = Inr i1 \<Longrightarrow> normalize ext i1 = Inr i2 \<Longrightarrow> optimize_image ext i2 = Inr i3
     \<Longrightarrow> remove ext i3 = Inl e \<Longrightarrow> step_fails ext b Removal e"
| canvas_fails:
    "Image_open ext b = Inr i1 \<Longrightarrow> normalize ext i1 = Inr i2 \<Longrightarrow> optimize_image ext i2 = Inr i3
     \<Longrightarrow> remove ext i3 = Inr i4
     \<Longrightarrow> Image_new ext ''RGBA'' (image_size i4) BACKGROUND_COLOR = Inl e
     \<Longrightarrow> step_fails ext b Composite e"
| paste_fails:
    "Image_open ext b = Inr i1 \<Longrightarrow> normalize ext i1 = Inr i2 \<Longrightarrow> optimize_image ext i2 = Inr i3
     \<Longrightarrow> remove ext i3 = Inr i4
     \<Longrightarrow> Image_new ext ''RGBA'' (image_size i4) BACKGROUND_COLOR = Inr bg
     \<Longrightarrow> paste ext bg i4 (0, 0) i4 = Inl e
     \<Longrightarrow> step_fails ext b Composite e"
| flatten_fails:
    "Image_open ext b = Inr i1 \<Longrightarrow> normalize ext i1 = Inr i2 \<Longrightarrow> optimize_image ext i2 = Inr i3
     \<Longrightarrow> remove ext i3 = Inr i4
     \<Longrightarrow> Image_new ext ''RGBA'' (image_size i4) BACKGROUND_COLOR = Inr bg
     \<Longrightarrow> paste ext bg i4 (0, 0) i4 = Inr bg'
     \<Longrightarrow> convert ext bg' ''RGB'' = Inl e
     \<Longrightarrow> step_fails ext b Encode e"
| save_fails:
    "Image_open ext b = Inr i1 \<Longrightarrow> normalize ext i1 = Inr i2 \<Longrightarrow> optimize_image ext i2 = Inr i3
     \<Longrightarrow> remove ext i3 = Inr i4
     \<Longrightarrow> Image_new ext ''RGBA'' (image_size i4) BACKGROUND_COLOR = Inr bg
     \<Longrightarrow> paste ext bg i4 (0, 0) i4 = Inr bg'
     \<Longrightarrow> convert ext bg' ''RGB'' = Inr final
     \<Longrightarrow> save_jpeg ext final 90 True = Inl e
     \<Longrightarrow> step_fails ext b Encode e"

subsection \<open>Modes of the image library\<close>

text \<open>
  Modelled from the spec: the specification speaks of source modes that include an alpha or
  a palette channel; the table of modes belongs to the image library, outside the module.
  Its modes with an alpha band are \<open>RGBA\<close>, \<open>LA\<close>, \<open>PA\<close> and the premultiplied \<open>RGBa\<close>, \<open>La\<close>;
  its modes with a palette band are \<open>P\<close> and \<open>PA\<close>.
\<close>

definition has_alpha_channel :: "string \<Rightarrow> bool" where
  "has_alpha_channel m = (m \<in> set [''RGBA'', ''LA'', ''PA'', ''RGBa'', ''La''])"

definition has_palette_channel :: "string \<Rightarrow> bool" where
  "has_palette_channel m = (m \<in> set [''P'', ''PA''])"

text \<open>The library's contract for \<open>convert\<close>: a returned image has the mode asked for.\<close>

definition convert_contract :: "externals \<Rightarrow> bool" where
  "convert_contract ext = (\<forall>im m r. convert ext im m = Inr r \<longrightarrow> mode r = m)"

definition demo_nopixels :: upload where
  "demo_nopixels = \<lparr>filename = ''empty.png'', content_type = Some ''image/png'', raw = [0x89, 0, 1, 7]\<rparr>"

definition demo_pa_image :: image where
  "demo_pa_image = \<lparr>width = 256, height = 7, mode = ''PA'', pixels = [42]\<rparr>"

subsection \<open>The resize step against the specification\<close>

text \<open>
  The height the specification gives for an image wider than the maximum: the exact
  quotient \<open>height * 1024 / width\<close> rounded to the nearest integer (ties to even, as
  \<open>round\<close> does).
\<close>

definition rounded_height :: "image \<Rightarrow> int" where
  "rounded_height im = round_half_even (of_int (height im) * 1024 / of_int (width im))"

text \<open>The library's contract for \<open>resize\<close>: a returned image has the size asked for.\<close>

definition resize_contract :: "externals \<Rightarrow> bool" where
  "resize_contract ext =
     (\<forall>im w h r. resize_lanczos ext im (w, h) = Inr r \<longrightarrow> width r = w \<and> height r = h)"

definition demo_photo :: image where
  "demo_photo = \<lparr>width = 3000, height = 2000, mode = ''RGB'', pixels = [42]\<rparr>"

definition demo_thumbnail :: image where
  "demo_thumbnail = \<lparr>width = 640, height = 480, mode = ''RGB'', pixels = [42]\<rparr>"

definition demo_square :: image where
  "demo_square = \<lparr>width = 1122, height = 1122, mode = ''RGB'', pixels = [42]\<rparr>"

section \<open>Properties\<close>

subsection \<open>The batch loop\<close>

lemma batch_entry_Some:
  "batch_entry ext (i, f) = Some (n, out) \<longleftrightarrow>
     declared_image f \<and> process_image ext (raw f) = Inr out \<and> n = zip_filename i (filename f)"
  by (auto simp add: batch_entry_def split: sum.splits)

lemma batch_entry_None:
  "batch_entry ext (i, f) = None \<longleftrightarrow>
     \<not> declared_image f \<or> (\<exists>e. process_image ext (raw f) = Inl e)"
  by (auto simp add: batch_entry_def split: sum.splits)

lemma batch_entry_not_None:
  "batch_entry ext (i, f) \<noteq> None \<longleftrightarrow>
     declared_image f \<and> (\<exists>out. process_image ext (raw f) = Inr out)"
  by (auto simp add: batch_entry_def split: sum.splits)

text \<open>One iteration, read through the call it gives rise to.\<close>

lemma batch_item_step:
  "batch_item ext (idx, f) st =
     (case batch_entry ext (idx, f) of
        None \<Rightarrow> st\<lparr>processed := processed st @ (if declared_image f then [idx] else [])\<rparr>
      | Some (n, d) \<Rightarrow>
          (case writestr ext (entries st) n d of
             Inl e \<Rightarrow> st\<lparr>processed := processed st @ [idx], writes := writes st @ [(n, d, False)]\<rparr>
           | Inr ar \<Rightarrow> st\<lparr>entries := ar, processed := processed st @ [idx],
                           writes := writes st @ [(n, d, True)]\<rparr>))"
  by (simp add: batch_item_def batch_entry_def declared_image_def is_image_type_def Let_def
      split: option.splits sum.splits)

lemma batch_item_skip:
  assumes "batch_entry ext (idx, f) = None"
  shows "batch_item ext (idx, f) st =
    st\<lparr>processed := processed st @ (if declared_image f then [idx] else [])\<rparr>"
  using assms by (simp add: batch_item_step)

lemma batch_item_write:
  assumes "batch_entry ext (idx, f) = Some (n, d)"
  shows "batch_item ext (idx, f) st =
    (case writestr ext (entries st) n d of
       Inl e \<Rightarrow> st\<lparr>processed := processed st @ [idx], writes := writes st @ [(n, d, False)]\<rparr>
     | Inr ar \<Rightarrow> st\<lparr>entries := ar, processed := processed st @ [idx],
                     writes := writes st @ [(n, d, True)]\<rparr>)"
  using assms by (simp add: batch_item_step)

lemma batch_item_processed:
  "processed (batch_item ext (idx, f) st) = processed st @ (if declared_image f then [idx] else [])"
proof (cases "batch_entry ext (idx, f)")
  case None
  then show ?thesis by (simp add: batch_item_skip)
next
  case (Some e)
  obtain n d where e: "e = (n, d)" by (cases e)
  with Some have "declared_image f" by (simp add: batch_entry_Some)
  with Some e show ?thesis
    by (simp add: batch_item_write split: sum.splits)
qed

lemma batch_item_attempted:
  "attempted (writes (batch_item ext (idx, f) st)) =
     attempted (writes st) @ (case batch_entry ext (idx, f) of None \<Rightarrow> [] | Some e \<Rightarrow> [e])"
proof (cases "batch_entry ext (idx, f)")
  case None
  then show ?thesis by (simp add: batch_item_skip)
next
  case (Some e)
  obtain n d where e: "e = (n, d)" by (cases e)
  with Some show ?thesis
    by (simp add: batch_item_write attempted_def split: sum.splits)
qed

lemma batch_item_stored:
  assumes "writestr_contract ext" and "entries st = stored_entries (writes st)"
  shows "entries (batch_item ext (idx, f) st) = stored_entries (writes (batch_item ext (idx, f) st))"
proof (cases "batch_entry ext (idx, f)")
  case None
  with assms(2) show ?thesis by (simp add: batch_item_skip)
next
  case (Some e)
  obtain n d where e: "e = (n, d)" by (cases e)
  show ?thesis
  proof (cases "writestr ext (entries st) n d")
    case (Inl x)
    with Some e assms(2) show ?thesis
      by (simp add: batch_item_write stored_entries_def)
  next
    case (Inr ar)
    with assms(1) have "ar = entries st @ [(stored_name n, d)]"
      unfolding writestr_contract_def by blast
    with Inr Some e assms(2) show ?thesis
      by (simp add: batch_item_write stored_entries_def)
  qed
qed

lemma fold_processed:
  "processed (fold (batch_item ext) xs st) =
     processed st @ map fst (filter (\<lambda>p. declared_image (snd p)) xs)"
proof (induction xs arbitrary: st)
  case Nil
  show ?case by simp
next
  case (Cons x xs)
  obtain idx f where x: "x = (idx, f)" by (cases x)
  show ?case
    by (simp add: Cons.IH x batch_item_processed)
qed

lemma fold_attempted:
  "attempted (writes (fold (batch_item ext) xs st)) =
     attempted (writes st) @ List.map_filter (batch_entry ext) xs"
proof (induction xs arbitrary: st)
  case Nil
  show ?case by simp
next
  case (Cons x xs)
  obtain idx f where x: "x = (idx, f)" by (cases x)
  show ?case
    by (simp add: Cons.IH x batch_item_attempted split: option.splits)
qed

lemma fold_stored:
  assumes "writestr_contract ext" and "entries st = stored_entries (writes st)"
  shows "entries (fold (batch_item ext) xs st) = stored_entries (writes (fold (batch_item ext) xs st))"
  using assms(2)
proof (induction xs arbitrary: st)
  case Nil
  then show ?case by simp
next
  case (Cons x xs)
  obtain idx f where x: "x = (idx, f)" by (cases x)
  have "entries (batch_item ext (idx, f) st) = stored_entries (writes (batch_item ext (idx, f) st))"
    using assms(1) Cons.prems by (rule batch_item_stored)
  then show ?case
    by (simp add: x Cons.IH)
qed

lemma fold_skip_all:
  assumes "\<forall>x\<in>set xs. batch_entry ext x = None"
  shows "entries (fold (batch_item ext) xs st) = entries st"
  using assms
proof (induction xs arbitrary: st)
  case Nil
  show ?case by simp
next
  case (Cons x xs)
  obtain idx f where x: "x = (idx, f)" by (cases x)
  with Cons.prems have "batch_entry ext (idx, f) = None" by simp
  then have "entries (batch_item ext (idx, f) st) = entries st"
    by (simp add: batch_item_skip)
  with Cons show ?case
    by (simp add: x)
qed

lemma batch_loop_processed:
  "processed (batch_loop ext files) = map fst (filter (\<lambda>p. declared_image (snd p)) (enumerate 0 files))"
  by (simp add: batch_loop_def fold_processed)

lemma attempted_Nil: "attempted [] = []"
  by (simp add: attempted_def)

lemma batch_loop_attempted:
  "attempted (writes (batch_loop ext files)) = List.map_filter (batch_entry ext) (enumerate 0 files)"
  by (simp add: batch_loop_def fold_attempted attempted_Nil)

lemma batch_loop_stored:
  "writestr_contract ext \<Longrightarrow> entries (batch_loop ext files) = stored_entries (writes (batch_loop ext files))"
  unfolding batch_loop_def by (rule fold_stored) (simp_all add: stored_entries_def)

lemma batch_loop_skip_all:
  "\<forall>x\<in>set (enumerate 0 files). batch_entry ext x = None \<Longrightarrow> entries (batch_loop ext files) = []"
  by (simp add: batch_loop_def fold_skip_all)

subsection \<open>Evaluating the small instance\<close>

lemma demo_text_skipped: "\<not> declared_image demo_text"
  by (simp add: declared_image_def demo_text_def startswith_def)

lemma demo_broken_declared: "declared_image demo_broken"
  by (simp add: declared_image_def demo_broken_def startswith_def)

lemma demo_png_declared: "declared_image demo_png"
  by (simp add: declared_image_def demo_png_def startswith_def)

lemma demo_broken_fails:
  "process_image demo_externals (raw demo_broken) =
     Inl (HTTPException 500 ''Error procesando imagen: cannot identify image file'')"
  by (simp add: process_image_def process_image_body_def demo_broken_def demo_externals_def
      demo_open_def try_bind_def)

subsection \<open>Size validation of a batch\<close>

text \<open>
  C5: an empty list and a list of more than 15 files are refused with status 400 and no item
  is read or processed (the trace of processed items is empty); for a list of 1 to 15 files
  the validation passes and the handler runs the loop and responds with its archive.
\<close>

theorem batch_size_validation:
  "(length files = 0 \<or> 15 < length files \<longrightarrow>
      status_of (fst (remove_background_batch ext files)) = 400 \<and>
      snd (remove_background_batch ext files) = []) \<and>
   (1 \<le> length files \<and> length files \<le> 15 \<longrightarrow>
      (\<exists>hs. remove_background_batch ext files =
         (Inr (Response (Zip (entries (batch_loop ext files))) ''application/zip'' hs),
          processed (batch_loop ext files))))"
  by (auto simp add: remove_background_batch_def MAX_BATCH_SIZE_def Let_def)

theorem batch_size_validation_witness:
  "status_of (fst (remove_background_batch demo_externals [])) = 400 \<and>
   snd (remove_background_batch demo_externals []) = [] \<and>
   status_of (fst (remove_background_batch demo_externals (replicate 16 demo_png))) = 400 \<and>
   snd (remove_background_batch demo_externals (replicate 16 demo_png)) = [] \<and>
   (\<exists>hs. remove_background_batch demo_externals [demo_png, demo_text] =
      (Inr (Response (Zip (entries (batch_loop demo_externals [demo_png, demo_text])))
              ''application/zip'' hs),
       processed (batch_loop demo_externals [demo_png, demo_text])))"
  using batch_size_validation [of "[]" demo_externals]
    batch_size_validation [of "replicate 16 demo_png" demo_externals]
    batch_size_validation [of "[demo_png, demo_text]" demo_externals]
  by simp

subsection \<open>A batch in which nothing succeeds\<close>

text \<open>
  C8: a batch of 1 to 15 files is answered with status 200 and the archive; when every item
  is skipped or fails, the archive has no entry and the answer is still that response.
\<close>

theorem batch_all_skipped:
  assumes "1 \<le> length files" and "length files \<le> 15"
  shows "status_of (fst (remove_background_batch ext files)) = 200 \<and>
    ((\<forall>f\<in>set files. \<not> declared_image f \<or> (\<exists>e. process_image ext (raw f) = Inl e)) \<longrightarrow>
       (\<exists>hs. fst (remove_background_batch ext files) = Inr (Response (Zip []) ''application/zip'' hs)))"
proof -
  have valid: "\<not> MAX_BATCH_SIZE < length files" "files \<noteq> []"
    using assms by (auto simp add: MAX_BATCH_SIZE_def)
  have "entries (batch_loop ext files) = []"
    if skip: "\<forall>f\<in>set files. \<not> declared_image f \<or> (\<exists>e. process_image ext (raw f) = Inl e)"
  proof (rule batch_loop_skip_all, rule ballI)
    fix p assume "p \<in> set (enumerate 0 files)"
    then have "fst p < length files" and "files ! fst p = snd p"
      by (simp_all add: in_set_enumerate_eq)
    then have "snd p \<in> set files"
      by (metis nth_mem)
    with skip show "batch_entry ext p = None"
      by (cases p) (auto simp add: batch_entry_def)
  qed
  then show ?thesis
    using valid by (simp add: remove_background_batch_def Let_def)
qed

theorem batch_all_skipped_witness:
  "status_of (fst (remove_background_batch demo_externals [demo_text, demo_broken])) = 200 \<and>
   (\<exists>hs. fst (remove_background_batch demo_externals [demo_text, demo_broken]) =
      Inr (Response (Zip []) ''application/zip'' hs))"
  using batch_all_skipped [of "[demo_text, demo_broken]" demo_externals]
    demo_text_skipped demo_broken_fails
  by simp

subsection \<open>Decimal digits and entry names\<close>

lemma is_digit_digit_char: "d < 10 \<Longrightarrow> is_digit (digit_char d)"
  unfolding is_digit_def digit_char_def by (rule nth_mem) simp

lemma digit_value_table: "\<forall>d\<in>set [0..<10]. digit_value (digit_char d) = d"
  by code_simp

lemma digit_value_digit_char: "d < 10 \<Longrightarrow> digit_value (digit_char d) = d"
  using digit_value_table by simp

lemma str_nat_digits: "\<forall>c\<in>set (str_nat n). is_digit c"
proof (induction n rule: str_nat.induct)
  case (1 n)
  show ?case
  proof (cases "n < 10")
    case True
    then show ?thesis
      by (simp add: str_nat.simps [of n] is_digit_digit_char)
  next
    case False
    with 1 show ?thesis
      by (simp add: str_nat.simps [of n] is_digit_digit_char)
  qed
qed

lemma nat_of_digits_snoc: "nat_of_digits (s @ [c]) = 10 * nat_of_digits s + digit_value c"
  by (simp add: nat_of_digits_def)

lemma nat_of_digits_str_nat: "nat_of_digits (str_nat n) = n"
proof (induction n rule: str_nat.induct)
  case (1 n)
  show ?case
  proof (cases "n < 10")
    case True
    then show ?thesis
      by (simp add: str_nat.simps [of n] nat_of_digits_def digit_value_digit_char)
  next
    case False
    with 1 have "nat_of_digits (str_nat (n div 10)) = n div 10" by simp
    with False show ?thesis
      by (simp add: str_nat.simps [of n] nat_of_digits_snoc digit_value_digit_char)
  qed
qed

lemma nat_of_digits_zero: "nat_of_digits (CHR ''0'' # s) = nat_of_digits s"
  by (simp add: nat_of_digits_def digit_value_def)

lemma nat_of_digits_zeros: "nat_of_digits (replicate k (CHR ''0'') @ s) = nat_of_digits s"
  by (induction k) (simp_all add: nat_of_digits_zero)

lemma nat_of_digits_format_03d: "nat_of_digits (format_03d i) = i"
  by (simp add: format_03d_def nat_of_digits_zeros nat_of_digits_str_nat)

lemma is_digit_zero: "is_digit (CHR ''0'')"
  by (simp add: is_digit_def)

lemma not_digit_underscore: "\<not> is_digit (CHR ''_'')"
  by (simp add: is_digit_def)

lemma format_03d_digits: "\<forall>c\<in>set (format_03d i). is_digit c"
  using str_nat_digits [of i] is_digit_zero by (auto simp add: format_03d_def)

lemma takeWhile_digits_format_03d:
  "takeWhile is_digit (format_03d i @ CHR ''_'' # rest) = format_03d i"
  using format_03d_digits [of i]
  by (simp add: takeWhile_tail not_digit_underscore takeWhile_eq_all_conv)

text \<open>The index an entry name begins with.\<close>

lemma index_of_zip_filename:
  "nat_of_digits (takeWhile is_digit (zip_filename i fn)) = i"
  by (simp add: zip_filename_def takeWhile_digits_format_03d nat_of_digits_format_03d)




subsection \<open>The calls of the writer and the entries of the archive\<close>

lemma enumerate_nth: "enumerate 0 xs = map (\<lambda>i. (i, xs ! i)) [0..<length xs]"
  by (rule nth_equalityI) (simp_all add: nth_enumerate_eq)

lemma in_set_map_filter: "y \<in> set (List.map_filter f xs) \<longleftrightarrow> (\<exists>x\<in>set xs. f x = Some y)"
  by (induction xs) (auto split: option.splits)

lemma startswith_index:
  assumes "startswith (zip_filename j fn) (format_03d i @ ''_'')"
  shows "i = j"
proof -
  define p where "p = format_03d i @ ''_''"
  have "zip_filename j fn = take (length p) (zip_filename j fn) @ drop (length p) (zip_filename j fn)"
    by simp
  with assms have "zip_filename j fn = format_03d i @ CHR ''_'' # drop (length p) (zip_filename j fn)"
    by (simp add: startswith_def p_def)
  then have "takeWhile is_digit (zip_filename j fn) = format_03d i"
    by (metis takeWhile_digits_format_03d)
  then have "nat_of_digits (takeWhile is_digit (zip_filename j fn)) = i"
    by (simp add: nat_of_digits_format_03d)
  then show ?thesis
    by (simp add: index_of_zip_filename)
qed





lemma stored_name_prefix: "stored_name n @ dropWhile (\<lambda>c. c \<noteq> CHR 0x00) n = n"
  by (simp add: stored_name_def)

lemma startswith_stored:
  assumes "startswith (stored_name n) p"
  shows "startswith n p"
proof -
  from assms have t: "take (length p) (stored_name n) = p"
    by (simp add: startswith_def)
  then have "length (take (length p) (stored_name n)) = length p"
    by (rule arg_cong)
  then have "length p \<le> length (stored_name n)"
    by simp
  then have "take (length p) (stored_name n @ dropWhile (\<lambda>c. c \<noteq> CHR 0x00) n) = take (length p) (stored_name n)"
    by simp
  with t show ?thesis
    by (simp only: stored_name_prefix startswith_def)
qed




lemma stored_entries_alt:
  "stored_entries ws = map (\<lambda>w. (stored_name (fst w), fst (snd w))) (filter (\<lambda>w. snd (snd w)) ws)"
  by (simp add: stored_entries_def split_def)

lemma attempted_alt: "attempted ws = map (\<lambda>w. (fst w, fst (snd w))) ws"
  by (simp add: attempted_def split_def)

text \<open>Every call of \<open>writestr\<close> in a run comes from an item of the batch.\<close>

lemma write_origin:
  assumes "w \<in> set (writes (batch_loop ext files))"
  shows "\<exists>j<length files. batch_entry ext (j, files ! j) = Some (fst w, fst (snd w))"
proof -
  from assms have "(fst w, fst (snd w)) \<in> set (attempted (writes (batch_loop ext files)))"
    by (auto simp add: attempted_alt)
  then obtain p where p: "p \<in> set (enumerate 0 files)"
    and some: "batch_entry ext p = Some (fst w, fst (snd w))"
    by (auto simp add: batch_loop_attempted in_set_map_filter)
  from p have "fst p < length files" and "files ! fst p = snd p"
    by (simp_all add: in_set_enumerate_eq)
  with some show ?thesis
    by (metis prod.collapse)
qed



lemma batch_response:
  assumes "1 \<le> length files" and "length files \<le> 15"
  shows "\<exists>hs. remove_background_batch ext files =
    (Inr (Response (Zip (entries (batch_loop ext files))) ''application/zip'' hs),
     filter (\<lambda>i. declared_image (files ! i)) [0..<length files])"
proof -
  have valid: "\<not> MAX_BATCH_SIZE < length files" "files \<noteq> []"
    using assms by (auto simp add: MAX_BATCH_SIZE_def)
  have "map fst (filter (\<lambda>p. declared_image (snd p)) (enumerate 0 files)) =
      filter (\<lambda>i. declared_image (files ! i)) [0..<length files]"
    by (simp add: enumerate_nth filter_map comp_def)
  with valid show ?thesis
    by (simp add: remove_background_batch_def Let_def batch_loop_processed)
qed

subsection \<open>Batches on the small instance\<close>

lemma demo_writestr_contract: "writestr_contract demo_externals"
  by (simp add: writestr_contract_def demo_externals_def demo_writestr_def split: if_splits)

lemma demo_png_processed: "process_image demo_externals (raw demo_png) = Inr [0xFF, 0xD8, 42]"
  by (simp add: process_image_def process_image_body_def demo_png_def demo_externals_def
      demo_open_def try_bind_def normalize_def optimize_image_def MAX_IMAGE_WIDTH_def image_size_def)

lemma demo_nul_processed: "process_image demo_externals (raw demo_nul) = Inr [0xFF, 0xD8, 42]"
  by (simp add: process_image_def process_image_body_def demo_nul_def demo_externals_def
      demo_open_def try_bind_def normalize_def optimize_image_def MAX_IMAGE_WIDTH_def image_size_def)

lemma demo_nul_declared: "declared_image demo_nul"
  by (simp add: declared_image_def demo_nul_def startswith_def)

lemma demo_names:
  "zip_filename 0 (filename demo_png) = ''000_shirt.front.jpg''"
  "zip_filename (Suc 0) (filename demo_png) = ''001_shirt.front.jpg''"
  "zip_filename (Suc (Suc 0)) (filename demo_png) = ''002_shirt.front.jpg''"
  "zip_filename 0 (filename demo_nul) = ''000_a'' @ [CHR 0x00] @ ''b.jpg''"
  "zip_filename (Suc 0) (filename demo_nul) = ''001_a'' @ [CHR 0x00] @ ''b.jpg''"
  by (simp_all add: zip_filename_def format_03d_def str_nat.simps digit_char_def base_name_def
      rsplit1_def demo_png_def demo_nul_def numeral_2_eq_2)

lemma demo_entries:
  "batch_entry demo_externals (i, demo_png) = Some (zip_filename i (filename demo_png), [0xFF, 0xD8, 42])"
  "batch_entry demo_externals (i, demo_nul) = Some (zip_filename i (filename demo_nul), [0xFF, 0xD8, 42])"
  "batch_entry demo_externals (i, demo_text) = None"
  "batch_entry demo_externals (i, demo_broken) = None"
  by (simp_all add: batch_entry_def demo_png_declared demo_png_processed demo_text_skipped
      demo_broken_declared demo_broken_fails demo_nul_declared demo_nul_processed)

lemma demo_writes: "writestr demo_externals = demo_writestr"
  by (simp add: demo_externals_def)

text \<open>The writer refuses a name of 65536 bytes.\<close>

lemma demo_long_name_refused:
  "\<exists>e. writestr demo_externals ar (replicate 65536 (CHR ''a'')) d = Inl e"
  by (simp add: demo_externals_def demo_writestr_def stored_name_def takeWhile_replicate)




lemma demo_skip_loop:
  "batch_loop demo_externals [demo_text, demo_broken, demo_png] =
     \<lparr>entries = [(''002_shirt.front.jpg'', [0xFF, 0xD8, 42])], processed = [1, 2],
      writes = [(''002_shirt.front.jpg'', [0xFF, 0xD8, 42], True)]\<rparr>"
  by (simp add: batch_loop_def batch_item_step demo_entries demo_names demo_writes demo_writestr_def stored_name_def
      demo_text_skipped demo_broken_declared demo_png_declared)


subsection \<open>Entry names are distinct\<close>




subsection \<open>Entry names and order\<close>




subsection \<open>Skipping items\<close>

text \<open>
  C3: a batch of 1 to 15 files never fails: the handler responds with the archive.  Every
  item declared an image is read and processed, also after other items were skipped or
  failed (the trace holds exactly their positions, in order).  For an item that is not
  declared an image, or whose processing fails, the writer is never called, and (the
  writer taken under its contract) no entry of the archive carries its position.
\<close>

theorem batch_skips_and_continues:
  assumes "1 \<le> length files" and "length files \<le> 15"
  shows "\<exists>arch hs.
     remove_background_batch ext files =
       (Inr (Response (Zip arch) ''application/zip'' hs),
        filter (\<lambda>i. declared_image (files ! i)) [0..<length files]) \<and>
     (\<forall>i<length files.
        \<not> declared_image (files ! i) \<or> (\<exists>e. process_image ext (raw (files ! i)) = Inl e) \<longrightarrow>
        (\<forall>w\<in>set (writes (batch_loop ext files)). \<not> startswith (fst w) (format_03d i @ ''_'')) \<and>
        (writestr_contract ext \<longrightarrow>
           (\<forall>entry\<in>set arch. \<not> startswith (fst entry) (format_03d i @ ''_''))))"
proof -
  define arch where "arch = entries (batch_loop ext files)"
  obtain hs where resp: "remove_background_batch ext files =
       (Inr (Response (Zip arch) ''application/zip'' hs),
        filter (\<lambda>i. declared_image (files ! i)) [0..<length files])"
    using batch_response [OF assms] unfolding arch_def by blast
  have call: "\<not> startswith (fst w) (format_03d i @ ''_'')"
    if i: "i < length files"
      and sk: "\<not> declared_image (files ! i) \<or> (\<exists>e. process_image ext (raw (files ! i)) = Inl e)"
      and w: "w \<in> set (writes (batch_loop ext files))" for i w
  proof
    assume sw: "startswith (fst w) (format_03d i @ ''_'')"
    from write_origin [OF w] obtain j where "j < length files"
      and some: "batch_entry ext (j, files ! j) = Some (fst w, fst (snd w))"
      by blast
    then have name: "fst w = zip_filename j (filename (files ! j))"
      by (simp add: batch_entry_Some)
    with sw have "i = j" by (simp add: startswith_index)
    with some sk show False
      by (auto simp add: batch_entry_Some)
  qed
  have stored: "\<not> startswith (fst entry) (format_03d i @ ''_'')"
    if i: "i < length files"
      and sk: "\<not> declared_image (files ! i) \<or> (\<exists>e. process_image ext (raw (files ! i)) = Inl e)"
      and c: "writestr_contract ext" and entry: "entry \<in> set arch" for i entry
  proof
    assume sw: "startswith (fst entry) (format_03d i @ ''_'')"
    from c have "arch = stored_entries (writes (batch_loop ext files))"
      unfolding arch_def by (rule batch_loop_stored)
    with entry obtain w where w: "w \<in> set (writes (batch_loop ext files))"
      and "fst entry = stored_name (fst w)"
      by (auto simp add: stored_entries_alt)
    with sw have "startswith (fst w) (format_03d i @ ''_'')"
      by (simp add: startswith_stored)
    with call [OF i sk w] show False ..
  qed
  from resp call stored show ?thesis by blast
qed

theorem batch_skips_and_continues_witness:
  "(\<exists>hs. remove_background_batch demo_externals [demo_text, demo_broken, demo_png] =
      (Inr (Response (Zip [(''002_shirt.front.jpg'', [0xFF, 0xD8, 42])]) ''application/zip'' hs), [1, 2])) \<and>
   writes (batch_loop demo_externals [demo_text, demo_broken, demo_png]) =
     [(''002_shirt.front.jpg'', [0xFF, 0xD8, 42], True)] \<and>
   \<not> startswith ''002_shirt.front.jpg'' (format_03d 0 @ ''_'') \<and>
   \<not> startswith ''002_shirt.front.jpg'' (format_03d 1 @ ''_'')"
proof -
  let ?files = "[demo_text, demo_broken, demo_png]"
  have size: "1 \<le> length ?files" "length ?files \<le> 15"
    by simp_all
  have run: "remove_background_batch demo_externals ?files =
      (Inr (Response (Zip [(''002_shirt.front.jpg'', [0xFF, 0xD8, 42])]) ''application/zip''
         [(''Content-Disposition'', ''attachment; filename='' @ [CHR 0x22] @ ''processed_garments.zip'' @ [CHR 0x22])]), [1, 2])"
    by (simp add: remove_background_batch_def MAX_BATCH_SIZE_def Let_def demo_skip_loop)
  have ws: "writes (batch_loop demo_externals ?files) = [(''002_shirt.front.jpg'', [0xFF, 0xD8, 42], True)]"
    by (simp add: demo_skip_loop)
  from batch_skips_and_continues [OF size, of demo_externals] obtain arch hs where
    eq: "remove_background_batch demo_externals ?files =
       (Inr (Response (Zip arch) ''application/zip'' hs),
        filter (\<lambda>i. declared_image (?files ! i)) [0..<length ?files])"
    and skip: "\<forall>i<length ?files.
        \<not> declared_image (?files ! i) \<or>
        (\<exists>e. process_image demo_externals (raw (?files ! i)) = Inl e) \<longrightarrow>
        (\<forall>w\<in>set (writes (batch_loop demo_externals ?files)).
           \<not> startswith (fst w) (format_03d i @ ''_'')) \<and>
        (writestr_contract demo_externals \<longrightarrow>
           (\<forall>entry\<in>set arch. \<not> startswith (fst entry) (format_03d i @ ''_'')))"
    by blast
  from eq run have arch: "arch = [(''002_shirt.front.jpg'', [0xFF, 0xD8, 42])]"
    by simp
  from skip [rule_format, of 0] demo_text_skipped ws
  have a: "\<not> startswith ''002_shirt.front.jpg'' (format_03d 0 @ ''_'')"
    by simp
  from skip [rule_format, of 1] demo_broken_fails demo_writestr_contract arch
  have b: "\<not> startswith ''002_shirt.front.jpg'' (format_03d 1 @ ''_'')"
    by simp
  from run ws a b show ?thesis by blast
qed

subsection \<open>Failures of the pipeline\<close>

lemma process_image_failure:
  assumes "step_fails ext b s e"
  shows "process_image ext b = Inl (HTTPException 500 (''Error procesando imagen: '' @ str_exn e))"
  using assms
  by (induction rule: step_fails.induct)
    (simp_all add: process_image_def process_image_body_def try_bind_def)

lemma process_image_cases:
  "(\<exists>out final. process_image ext b = Inr out \<and> save_jpeg ext final 90 True = Inr out) \<or>
   (\<exists>s e. step_fails ext b s e)"
proof -
  consider e where "Image_open ext b = Inl e" | i1 where "Image_open ext b = Inr i1"
    by (cases "Image_open ext b") auto
  then show ?thesis
  proof cases
    case 1
    then show ?thesis using decode_fails by blast
  next
    case i1: 2
    show ?thesis
    proof (cases "normalize ext i1")
      case (Inl e)
      with i1 show ?thesis using normalize_fails by blast
    next
      case i2: (Inr i2)
      show ?thesis
      proof (cases "optimize_image ext i2")
        case (Inl e)
        with i1 i2 show ?thesis using resize_fails by blast
      next
        case i3: (Inr i3)
        show ?thesis
        proof (cases "remove ext i3")
          case (Inl e)
          with i1 i2 i3 show ?thesis using removal_fails by blast
        next
          case i4: (Inr i4)
          show ?thesis
          proof (cases "Image_new ext ''RGBA'' (image_size i4) BACKGROUND_COLOR")
            case (Inl e)
            with i1 i2 i3 i4 show ?thesis using canvas_fails by blast
          next
            case bg: (Inr bg)
            show ?thesis
            proof (cases "paste ext bg i4 (0, 0) i4")
              case (Inl e)
              with i1 i2 i3 i4 bg show ?thesis using paste_fails by blast
            next
              case bg': (Inr bg')
              show ?thesis
              proof (cases "convert ext bg' ''RGB''")
                case (Inl e)
                with i1 i2 i3 i4 bg bg' show ?thesis using flatten_fails by blast
              next
                case fin: (Inr fin)
                show ?thesis
                proof (cases "save_jpeg ext fin 90 True")
                  case (Inl e)
                  with i1 i2 i3 i4 bg bg' fin show ?thesis using save_fails by blast
                next
                  case (Inr out)
                  with i1 i2 i3 i4 bg bg' fin
                  have "process_image ext b = Inr out"
                    by (simp add: process_image_def process_image_body_def try_bind_def)
                  with Inr show ?thesis by blast
                qed
              qed
            qed
          qed
        qed
      qed
    qed
  qed
qed

text \<open>
  The single-image handler on an upload declared an image: a failure of \<open>process_image\<close> is
  passed on as it is; after a success the header is encoded and the response built.
\<close>

lemma single_declared_failure:
  assumes "declared_image file" and "process_image ext (raw file) = Inl (HTTPException c d)"
  shows "remove_background_single ext file = Inl (HTTPException c d)"
proof -
  from assms(1) obtain ct where "content_type file = Some ct" "startswith ct ''image/''"
    by (auto simp add: declared_image_def split: option.splits)
  with assms(2) show ?thesis
    by (simp add: remove_background_single_def single_body_def is_image_type_def try_bind_def)
qed

lemma single_declared_success:
  assumes "declared_image file" and "process_image ext (raw file) = Inr out"
  shows "remove_background_single ext file =
    (case encode_header ext (content_disposition (filename file)) of
       Inl (HTTPException c d) \<Rightarrow> Inl (HTTPException c d)
     | Inl (OtherException m) \<Rightarrow> Inl (HTTPException 500 m)
     | Inr encoded \<Rightarrow>
         Inr (Response (Raw out) ''image/jpeg''
               [(''Content-Disposition'', content_disposition (filename file))]))"
proof -
  from assms(1) obtain ct where "content_type file = Some ct" "startswith ct ''image/''"
    by (auto simp add: declared_image_def split: option.splits)
  with assms(2) show ?thesis
    by (simp add: remove_background_single_def single_body_def is_image_type_def try_bind_def
        split: sum.splits exn.splits)
qed

text \<open>
  C7: when any of the six steps of the single-image processor fails, \<open>process_image\<close>
  raises one \<open>HTTPException\<close> with status 500 whose detail is the processing-failed prefix
  followed by the message of the original exception, and the single-image handler passes
  it on unchanged; bytes are returned only when no step fails, and they are then the
  complete output of the encoder.
\<close>

theorem processing_failure:
  "(step_fails ext b s e \<longrightarrow>
      process_image ext b = Inl (HTTPException 500 (''Error procesando imagen: '' @ str_exn e)) \<and>
      (\<forall>file. declared_image file \<and> raw file = b \<longrightarrow>
         remove_background_single ext file =
           Inl (HTTPException 500 (''Error procesando imagen: '' @ str_exn e)))) \<and>
   (\<forall>out. process_image ext b = Inr out \<longrightarrow>
      (\<exists>final. save_jpeg ext final 90 True = Inr out) \<and> \<not> (\<exists>s' e'. step_fails ext b s' e'))"
proof (intro conjI impI allI)
  assume "step_fails ext b s e"
  then show "process_image ext b = Inl (HTTPException 500 (''Error procesando imagen: '' @ str_exn e))"
    by (rule process_image_failure)
next
  fix f
  assume "step_fails ext b s e" and "declared_image f \<and> raw f = b"
  then show "remove_background_single ext f =
           Inl (HTTPException 500 (''Error procesando imagen: '' @ str_exn e))"
    by (simp add: single_declared_failure process_image_failure)
next
  fix out assume out: "process_image ext b = Inr out"
  then show "\<exists>final. save_jpeg ext final 90 True = Inr out"
    using process_image_cases [of ext b] process_image_failure [of ext b] by auto
  from out show "\<not> (\<exists>s' e'. step_fails ext b s' e')"
    using process_image_failure [of ext b] by auto
qed

lemma demo_decode_fails:
  "step_fails demo_externals (raw demo_broken) Decode (OtherException ''cannot identify image file'')"
  by (rule decode_fails) (simp add: demo_externals_def demo_broken_def demo_open_def)

lemma demo_removal_fails:
  "step_fails demo_externals (raw demo_nopixels) Removal (OtherException ''empty image'')"
  by (rule removal_fails [where ?i1.0 = "\<lparr>width = 256, height = 7, mode = ''RGB'', pixels = []\<rparr>"
        and ?i2.0 = "\<lparr>width = 256, height = 7, mode = ''RGB'', pixels = []\<rparr>"
        and ?i3.0 = "\<lparr>width = 256, height = 7, mode = ''RGB'', pixels = []\<rparr>"])
    (simp_all add: demo_externals_def demo_nopixels_def demo_open_def normalize_def optimize_image_def
      MAX_IMAGE_WIDTH_def)

lemma demo_nopixels_declared: "declared_image demo_nopixels"
  by (simp add: declared_image_def demo_nopixels_def startswith_def)

theorem processing_failure_witness:
  "process_image demo_externals (raw demo_broken) =
     Inl (HTTPException 500 ''Error procesando imagen: cannot identify image file'') \<and>
   remove_background_single demo_externals demo_broken =
     Inl (HTTPException 500 ''Error procesando imagen: cannot identify image file'') \<and>
   remove_background_single demo_externals demo_nopixels =
     Inl (HTTPException 500 ''Error procesando imagen: empty image'') \<and>
   (\<exists>final. save_jpeg demo_externals final 90 True = Inr [0xFF, 0xD8, 42])"
  using processing_failure [of demo_externals "raw demo_broken" Decode "OtherException ''cannot identify image file''"]
    processing_failure [of demo_externals "raw demo_nopixels" Removal "OtherException ''empty image''"]
    demo_decode_fails demo_removal_fails demo_broken_declared demo_nopixels_declared
    processing_failure [of demo_externals "raw demo_png"] demo_png_processed
  by simp


subsection \<open>The type check of the single-image handler\<close>

text \<open>
  C4 as stated does not hold: an upload declared \<open>image/jpeg\<close> whose bytes are not an image
  passes the type check, fails in decoding and is answered with status 500.
\<close>

theorem single_non_image_counterexample:
  "content_type demo_broken = Some ''image/jpeg'' \<and>
   Image_open demo_externals (raw demo_broken) = Inl (OtherException ''cannot identify image file'') \<and>
   remove_background_single demo_externals demo_broken =
     Inl (HTTPException 500 ''Error procesando imagen: cannot identify image file'') \<and>
   status_of (remove_background_single demo_externals demo_broken) = 500"
  by (simp add: single_declared_failure demo_broken_declared demo_broken_fails)
    (simp add: demo_broken_def demo_externals_def demo_open_def)

text \<open>
  C4, amended: an upload whose declared content type does not start with \<open>image/\<close> is
  answered with status 400 and the message \<open>El archivo debe ser una imagen\<close>; an upload
  declared as an image whose bytes do not decode is answered with status 500 and the
  processing-failed message.
\<close>

theorem single_content_type_check:
  "(content_type file = Some ct \<and> \<not> startswith ct ''image/'' \<longrightarrow>
      remove_background_single ext file = Inl (HTTPException 400 ''El archivo debe ser una imagen'')) \<and>
   (declared_image file \<and> Image_open ext (raw file) = Inl e \<longrightarrow>
      remove_background_single ext file =
        Inl (HTTPException 500 (''Error procesando imagen: '' @ str_exn e)))"
proof (intro conjI impI)
  assume "content_type file = Some ct \<and> \<not> startswith ct ''image/''"
  then show "remove_background_single ext file = Inl (HTTPException 400 ''El archivo debe ser una imagen'')"
    by (simp add: remove_background_single_def single_body_def is_image_type_def try_bind_def)
next
  assume a: "declared_image file \<and> Image_open ext (raw file) = Inl e"
  then have "step_fails ext (raw file) Decode e"
    by (simp add: decode_fails)
  with a show "remove_background_single ext file =
        Inl (HTTPException 500 (''Error procesando imagen: '' @ str_exn e))"
    by (simp add: single_declared_failure process_image_failure)
qed

text \<open>An upload that declares no content type raises in the type test and is answered 500.\<close>

lemma single_no_content_type:
  "content_type file = None \<Longrightarrow> status_of (remove_background_single ext file) = 500"
  by (simp add: remove_background_single_def single_body_def is_image_type_def try_bind_def)

theorem single_content_type_check_witness:
  "remove_background_single demo_externals demo_text =
     Inl (HTTPException 400 ''El archivo debe ser una imagen'') \<and>
   remove_background_single demo_externals demo_broken =
     Inl (HTTPException 500 ''Error procesando imagen: cannot identify image file'')"
proof -
  have "content_type demo_text = Some ''text/plain'' \<and> \<not> startswith ''text/plain'' ''image/''"
    by (simp add: demo_text_def startswith_def)
  moreover have "declared_image demo_broken \<and>
      Image_open demo_externals (raw demo_broken) = Inl (OtherException ''cannot identify image file'')"
    by (simp add: demo_broken_declared) (simp add: demo_broken_def demo_externals_def demo_open_def)
  ultimately show ?thesis
    using single_content_type_check [of demo_text "''text/plain''" demo_externals]
      single_content_type_check [of demo_broken _ demo_externals "OtherException ''cannot identify image file''"]
    by simp
qed

subsection \<open>Mode normalisation\<close>

text \<open>
  C6 as stated does not hold: an image of mode \<open>PA\<close> has a palette and an alpha channel
  and is converted to \<open>RGB\<close>.
\<close>

theorem normalize_counterexample:
  "Image_open demo_externals [0x89, 2, 1, 7, 42] = Inr demo_pa_image \<and>
   has_alpha_channel (mode demo_pa_image) \<and> has_palette_channel (mode demo_pa_image) \<and>
   normalize demo_externals demo_pa_image = Inr (demo_pa_image\<lparr>mode := ''RGB''\<rparr>)"
  by (simp add: demo_externals_def demo_open_def demo_pa_image_def has_alpha_channel_def
      has_palette_channel_def normalize_def)

text \<open>
  C6, amended: the normalisation step converts to \<open>RGBA\<close> exactly when the source mode is
  \<open>RGBA\<close>, \<open>LA\<close> or \<open>P\<close>, and to \<open>RGB\<close> otherwise; of the modes with an alpha or a
  palette channel, \<open>PA\<close>, \<open>RGBa\<close> and \<open>La\<close> go to \<open>RGB\<close>.
\<close>

theorem normalize_modes:
  assumes "convert_contract ext" and "normalize ext im = Inr r"
  shows "mode r = (if mode im \<in> {''RGBA'', ''LA'', ''P''} then ''RGBA'' else ''RGB'') \<and>
    (mode r = ''RGBA'' \<longleftrightarrow>
       (has_alpha_channel (mode im) \<or> has_palette_channel (mode im)) \<and>
       mode im \<notin> {''PA'', ''RGBa'', ''La''})"
proof -
  from assms have m: "mode r = (if mode im \<in> {''RGBA'', ''LA'', ''P''} then ''RGBA'' else ''RGB'')"
    by (auto simp add: convert_contract_def normalize_def split: if_splits)
  have "mode im \<in> {''RGBA'', ''LA'', ''P''} \<longleftrightarrow>
      (has_alpha_channel (mode im) \<or> has_palette_channel (mode im)) \<and>
      mode im \<notin> {''PA'', ''RGBa'', ''La''}"
    by (auto simp add: has_alpha_channel_def has_palette_channel_def)
  with m show ?thesis by simp
qed

lemma demo_convert_contract: "convert_contract demo_externals"
  by (simp add: convert_contract_def demo_externals_def)

theorem normalize_modes_witness:
  "mode (demo_pa_image\<lparr>mode := ''RGB''\<rparr>) = ''RGB'' \<and>
   normalize demo_externals (demo_pa_image\<lparr>mode := ''P''\<rparr>) = Inr (demo_pa_image\<lparr>mode := ''RGBA''\<rparr>)"
proof -
  have a: "normalize demo_externals demo_pa_image = Inr (demo_pa_image\<lparr>mode := ''RGB''\<rparr>)"
    by (simp add: demo_externals_def demo_pa_image_def normalize_def)
  have b: "normalize demo_externals (demo_pa_image\<lparr>mode := ''P''\<rparr>) = Inr (demo_pa_image\<lparr>mode := ''RGBA''\<rparr>)"
    by (simp add: demo_externals_def demo_pa_image_def normalize_def)
  from normalize_modes [OF demo_convert_contract a] normalize_modes [OF demo_convert_contract b] b
  show ?thesis by (simp add: demo_pa_image_def)
qed

subsection \<open>Rounding to a double\<close>

lemma bit_length_bounds: "0 < n \<Longrightarrow> 2 ^ (bit_length n - 1) \<le> n \<and> n < 2 ^ bit_length n"
proof (induction n rule: bit_length.induct)
  case (1 n)
  show ?case
  proof (cases "n div 2 \<le> 0")
    case True
    with 1 have "n = 1" by linarith
    moreover have "bit_length 1 = Suc 0"
      by (simp add: bit_length.simps [of 1] bit_length.simps [of 0])
    ultimately show ?thesis
      by simp
  next
    case False
    with 1 have IH: "2 ^ (bit_length (n div 2) - 1) \<le> n div 2" "n div 2 < 2 ^ bit_length (n div 2)"
      by simp_all
    from False have "0 < bit_length (n div 2)"
      by (simp add: bit_length.simps [of "n div 2"])
    then have "(2::int) ^ bit_length (n div 2) = 2 * 2 ^ (bit_length (n div 2) - 1)"
      by (cases "bit_length (n div 2)") simp_all
    with IH 1 show ?thesis
      by (simp add: bit_length.simps [of n]) linarith
  qed
qed

lemma pow2_powi: "pow2 k = 2 powi k"
  by (simp add: pow2_def power_int_def power_one_over)

lemma pow2_pos: "0 < pow2 k"
  by (simp add: pow2_powi)

lemma pow2_diff: "pow2 (a - b) = pow2 a / pow2 b"
  by (simp add: pow2_powi power_int_diff)

lemma pow2_nat: "pow2 (int n) = 2 ^ n"
  by (simp add: pow2_powi)

lemma binary_exponent_le:
  assumes "0 < x"
  shows "pow2 (binary_exponent x) \<le> x"
proof -
  obtain a b where q: "quotient_of x = (a, b)" by (cases "quotient_of x")
  then have b: "0 < b" and x: "x = of_int a / of_int b"
    by (simp_all add: quotient_of_denom_pos quotient_of_div)
  with assms have a: "0 < a"
    by (simp add: zero_less_divide_iff)
  define la where "la = bit_length a"
  define lb where "lb = bit_length b"
  have "2 ^ (la - 1) \<le> a" "b < 2 ^ lb"
    using bit_length_bounds [of a] bit_length_bounds [of b] a b
    by (simp_all add: la_def lb_def)
  then have "(of_int (2 ^ (la - 1)) :: rat) \<le> of_int a" and "(of_int b :: rat) < of_int (2 ^ lb)"
    by (simp_all only: of_int_le_iff of_int_less_iff)
  then have A: "(2::rat) ^ (la - 1) \<le> of_int a" and B: "of_int b < (2::rat) ^ lb"
    by simp_all
  have la: "0 < la"
    using a by (simp add: la_def bit_length.simps [of a])
  have "pow2 (int la - int lb - 1) = 2 ^ (la - 1) / 2 ^ lb"
  proof -
    have "int la - int lb - 1 = int (la - 1) - int lb" using la by simp
    then show ?thesis by (simp only: pow2_diff pow2_nat)
  qed
  also have "\<dots> \<le> of_int a / 2 ^ lb"
    using A by (simp add: divide_right_mono)
  also have "\<dots> \<le> of_int a / of_int b"
    using B a b by (simp add: frac_le)
  finally have low: "pow2 (int la - int lb - 1) \<le> x"
    by (simp add: x)
  show ?thesis
    using low by (simp add: binary_exponent_def q la_def lb_def Let_def)
qed

lemma round_half_even_error: "\<bar>of_int (round_half_even y) - y\<bar> \<le> 1 / 2"
proof -
  define f where "f = \<lfloor>y\<rfloor>"
  define r where "r = y - of_int f"
  have r: "0 \<le> r" "r < 1"
    unfolding r_def f_def by linarith+
  have y: "y = of_int f + r"
    by (simp add: r_def)
  have rhe: "round_half_even y =
      (if r < 1 / 2 then f else if 1 / 2 < r then f + 1 else if even f then f else f + 1)"
    by (simp add: round_half_even_def Let_def f_def r_def)
  consider "r < 1 / 2" | "1 / 2 < r" | "r = 1 / 2"
    by linarith
  then show ?thesis
  proof cases
    case 1
    then have e: "round_half_even y = f" by (simp add: rhe)
    show ?thesis unfolding e using r 1 unfolding r_def by linarith
  next
    case 2
    then have e: "round_half_even y = f + 1" by (simp add: rhe)
    show ?thesis unfolding e using r 2 unfolding r_def by simp
  next
    case 3
    then have "round_half_even y = f \<or> round_half_even y = f + 1" by (simp add: rhe)
    then show ?thesis using 3 unfolding r_def by auto
  qed
qed

lemma round_double_error:
  assumes "0 \<le> x"
  shows "\<bar>round_double x - x\<bar> \<le> x / 2 ^ 53"
proof (cases "x = 0")
  case True
  then show ?thesis by (simp add: round_double_def)
next
  case False
  with assms have pos: "0 < x" by simp
  define e where "e = binary_exponent x - 52"
  have e: "pow2 e \<le> x / 2 ^ 52"
  proof -
    have "pow2 e = pow2 (binary_exponent x) / pow2 (int 52)"
      unfolding e_def by (simp only: pow2_diff) simp
    also have "\<dots> = pow2 (binary_exponent x) / 2 ^ 52"
      by (simp only: pow2_nat)
    also have "\<dots> \<le> x / 2 ^ 52"
      using binary_exponent_le [OF pos] by (simp add: divide_right_mono)
    finally show ?thesis .
  qed
  have rd: "round_double x = of_int (round_half_even (x / pow2 e)) * pow2 e"
    using pos by (simp add: round_double_def e_def Let_def)
  have "round_double x - x = (of_int (round_half_even (x / pow2 e)) - x / pow2 e) * pow2 e"
    using pow2_pos [of e] by (simp add: rd field_simps)
  then have "\<bar>round_double x - x\<bar> = \<bar>of_int (round_half_even (x / pow2 e)) - x / pow2 e\<bar> * pow2 e"
    using pow2_pos [of e] by (simp add: abs_mult)
  also have "\<dots> \<le> (1 / 2) * pow2 e"
    using round_half_even_error [of "x / pow2 e"] pow2_pos [of e]
    by (simp add: mult_right_mono)
  also have "\<dots> \<le> (1 / 2) * (x / 2 ^ 52)"
    using e by simp
  finally show ?thesis by simp
qed


lemma round_double_lower:
  assumes "0 \<le> x"
  shows "x * (1 - 1 / 2 ^ 53) \<le> round_double x"
proof -
  have "\<bar>round_double x - x\<bar> \<le> x / 2 ^ 53"
    by (rule round_double_error [OF assms])
  then have "x - x / 2 ^ 53 \<le> round_double x"
    by linarith
  moreover have "x * (1 - 1 / 2 ^ 53) = x - x / 2 ^ 53"
    by (simp only: right_diff_distrib mult_1_right times_divide_eq_right)
  ultimately show ?thesis by (simp only:)
qed

lemma round_double_upper:
  assumes "0 \<le> x"
  shows "round_double x \<le> x * (1 + 1 / 2 ^ 53)"
proof -
  have "\<bar>round_double x - x\<bar> \<le> x / 2 ^ 53"
    by (rule round_double_error [OF assms])
  then have "round_double x \<le> x + x / 2 ^ 53"
    by linarith
  moreover have "x * (1 + 1 / 2 ^ 53) = x + x / 2 ^ 53"
    by (simp only: distrib_left mult_1_right times_divide_eq_right)
  ultimately show ?thesis by (simp only:)
qed

lemma round_double_nonneg:
  assumes "0 \<le> x"
  shows "0 \<le> round_double x"
proof -
  have "0 \<le> x * (1 - 1 / 2 ^ 53)"
    using assms by simp
  with round_double_lower [OF assms] show ?thesis by linarith
qed

lemma cube_up: "(1 + 1 / 2 ^ 53) * ((1 + 1 / 2 ^ 53) * (1 + 1 / 2 ^ 53)) \<le> (1 + 1 / 2 ^ 50 :: rat)"
  by simp

lemma cube_down: "(1 - 1 / 2 ^ 50 :: rat) \<le> (1 - 1 / 2 ^ 53) * ((1 - 1 / 2 ^ 53) * (1 - 1 / 2 ^ 53))"
  by simp

text \<open>The double computed for \<open>h * (1024 / w)\<close> against the exact quotient.\<close>

lemma scaled_height_error:
  fixes w h :: int
  assumes w: "0 < w" and h: "0 \<le> h"
  defines "v \<equiv> of_int h * (1024 / of_int w)"
  defines "c \<equiv> int_mul_float h (int_truediv 1024 w)"
  shows "v * (1 - 1 / 2 ^ 50) \<le> c" and "c \<le> v * (1 + 1 / 2 ^ 50)"
proof -
  define u :: rat where "u = 1 / 2 ^ 53"
  define \<rho> :: rat where "\<rho> = 1024 / of_int w"
  define r where "r = round_double \<rho>"
  define H where "H = round_double (of_int h)"
  have u: "0 \<le> 1 - u" "0 \<le> 1 + u" by (simp_all add: u_def)
  have \<rho>: "0 \<le> \<rho>" using w by (simp add: \<rho>_def)
  have hh: "0 \<le> (of_int h :: rat)" using h by simp
  have r: "\<rho> * (1 - u) \<le> r" "r \<le> \<rho> * (1 + u)" "0 \<le> r"
    unfolding r_def u_def
    by (rule round_double_lower [OF \<rho>], rule round_double_upper [OF \<rho>], rule round_double_nonneg [OF \<rho>])
  have H: "of_int h * (1 - u) \<le> H" "H \<le> of_int h * (1 + u)" "0 \<le> H"
    unfolding H_def u_def
    by (rule round_double_lower [OF hh], rule round_double_upper [OF hh], rule round_double_nonneg [OF hh])
  have p: "0 \<le> H * r" using H r by simp
  have c: "c = round_double (H * r)"
    by (simp add: c_def int_mul_float_def int_truediv_def H_def r_def \<rho>_def)
  have c_lo: "H * r * (1 - u) \<le> c" and c_hi: "c \<le> H * r * (1 + u)"
    unfolding c u_def by (rule round_double_lower [OF p], rule round_double_upper [OF p])
  have "(of_int h * (1 - u)) * (\<rho> * (1 - u)) \<le> H * r"
    using H r u hh \<rho> by (intro mult_mono) simp_all
  then have "(of_int h * (1 - u)) * (\<rho> * (1 - u)) * (1 - u) \<le> H * r * (1 - u)"
    using u(1) by (simp add: mult_right_mono)
  with c_lo have lo: "(of_int h * \<rho>) * ((1 - u) * ((1 - u) * (1 - u))) \<le> c"
    by (simp add: mult_ac)
  have "H * r \<le> (of_int h * (1 + u)) * (\<rho> * (1 + u))"
    using H r u hh \<rho> by (intro mult_mono) simp_all
  then have "H * r * (1 + u) \<le> (of_int h * (1 + u)) * (\<rho> * (1 + u)) * (1 + u)"
    using u(2) by (simp add: mult_right_mono)
  with c_hi have hi: "c \<le> (of_int h * \<rho>) * ((1 + u) * ((1 + u) * (1 + u)))"
    by (simp add: mult_ac)
  have v: "v = of_int h * \<rho>" "0 \<le> v"
    using hh \<rho> by (simp_all add: v_def \<rho>_def)
  have "v * (1 - 1 / 2 ^ 50) \<le> v * ((1 - u) * ((1 - u) * (1 - u)))"
    unfolding u_def using v(2) cube_down by (rule mult_left_mono [rotated])
  with lo show "v * (1 - 1 / 2 ^ 50) \<le> c"
    by (simp add: v(1))
  have "v * ((1 + u) * ((1 + u) * (1 + u))) \<le> v * (1 + 1 / 2 ^ 50)"
    unfolding u_def using v(2) cube_up by (rule mult_left_mono [rotated])
  with hi show "c \<le> v * (1 + 1 / 2 ^ 50)"
    by (simp add: v(1))
qed


lemma new_height_bounds:
  fixes w h :: int
  assumes w: "1024 < w" and h: "0 \<le> h" "h < 2 ^ 31"
  defines "nh \<equiv> int_of_float (int_mul_float h (int_truediv 1024 w))"
  shows "h * 1024 div w - 1 \<le> nh \<and> nh \<le> h * 1024 div w \<and>
    (\<not> w dvd h * 1024 \<longrightarrow> nh = h * 1024 div w)"
proof -
  define c where "c = int_mul_float h (int_truediv 1024 w)"
  define N where "N = h * 1024"
  define v :: rat where "v = of_int h * (1024 / of_int w)"
  define q where "q = N div w"
  have wpos: "0 < w" using w by simp
  have wr: "0 < (of_int w :: rat)" using wpos by simp
  have vw: "v * of_int w = of_int N"
    using wpos by (simp add: v_def N_def)
  have N: "0 \<le> N" "N < 2 ^ 41"
    using h by (simp_all add: N_def)
  have v0: "0 \<le> v"
    using h wpos by (simp add: v_def)
  have lo: "v * (1 - 1 / 2 ^ 50) \<le> c" and hi: "c \<le> v * (1 + 1 / 2 ^ 50)"
    unfolding v_def c_def by (rule scaled_height_error [OF wpos h(1)])+
  have "0 \<le> v * (1 - 1 / 2 ^ 50)"
    using v0 by (intro mult_nonneg_nonneg) simp_all
  with lo have c0: "0 \<le> c" by linarith
  have nh: "nh = \<lfloor>c\<rfloor>"
    using c0 by (simp add: nh_def int_of_float_def c_def)
  have Nr: "(of_int N :: rat) < 2 ^ 41" "0 \<le> (of_int N :: rat)"
    using N by (simp_all add: of_int_less_numeral_power_cancel_iff)
  have "c * of_int w \<le> v * (1 + 1 / 2 ^ 50) * of_int w"
    using hi wr by (simp add: mult_right_mono)
  also have "\<dots> = of_int N * (1 + 1 / 2 ^ 50)"
    using vw by (simp add: mult_ac)
  also have "\<dots> < of_int N + 1"
    using Nr by (simp add: algebra_simps)
  finally have cw_hi: "c * of_int w < of_int N + 1" .
  have "of_int N - 1 < of_int N * (1 - 1 / 2 ^ 50 :: rat)"
    using Nr by (simp add: algebra_simps)
  also have "\<dots> = v * (1 - 1 / 2 ^ 50) * of_int w"
    using vw by (simp add: mult_ac)
  also have "\<dots> \<le> c * of_int w"
    using lo wr by (simp add: mult_right_mono)
  finally have cw_lo: "of_int N - 1 < c * of_int w" .
  have fl: "of_int nh \<le> c" "c < of_int nh + 1"
    unfolding nh by linarith+
  have "of_int nh * of_int w \<le> c * of_int w"
    using fl(1) wr by (simp add: mult_right_mono)
  with cw_hi have "(of_int (nh * w) :: rat) < of_int (N + 1)"
    by simp
  then have up: "nh * w \<le> N"
    by (simp only: of_int_less_iff)
  have "c * of_int w < (of_int nh + 1) * of_int w"
    using fl(2) wr by (simp add: mult_strict_right_mono)
  with cw_lo have "(of_int (N - 1) :: rat) < of_int ((nh + 1) * w)"
    by simp
  then have down: "N \<le> (nh + 1) * w"
    by (simp only: of_int_less_iff)
  have Nq: "N = q * w + N mod w"
    by (simp add: q_def)
  have m: "0 \<le> N mod w" "N mod w < w"
    using wpos by simp_all
  have "nh * w < (q + 1) * w"
    using up Nq m by (simp add: algebra_simps)
  then have "nh < q + 1"
    using wpos by (simp add: mult_less_cancel_right)
  then have A: "nh \<le> q" by simp
  have "q * w \<le> (nh + 1) * w"
    using down Nq m by linarith
  then have "q \<le> nh + 1"
    using wpos by (simp add: mult_le_cancel_right)
  then have B: "q - 1 \<le> nh" by simp
  have C: "nh = q" if "\<not> w dvd N"
  proof -
    from that have "N mod w \<noteq> 0"
      by (simp add: dvd_eq_mod_eq_0)
    with m have "0 < N mod w" by simp
    then have "q * w < (nh + 1) * w"
      using down Nq by linarith
    then have "q < nh + 1"
      using wpos by (simp add: mult_less_cancel_right)
    with A show ?thesis by simp
  qed
  from A B C show ?thesis
    by (simp add: q_def N_def)
qed

subsection \<open>The resize step\<close>

lemma demo_resize_contract: "resize_contract demo_externals"
  by (auto simp add: resize_contract_def demo_externals_def split: if_splits)

text \<open>
  The truncated double product can fall one below the exact quotient when that quotient
  is an integer: a square image 1122 pixels wide is resized to 1024 by 1023.
\<close>

lemma optimize_image_square:
  "optimize_image demo_externals demo_square = Inr (demo_square\<lparr>width := 1024, height := 1023\<rparr>)"
proof -
  have "int_of_float (int_mul_float 1122 (int_truediv 1024 1122)) = 1023"
    by code_simp
  then show ?thesis
    by (simp add: optimize_image_def demo_externals_def demo_square_def MAX_IMAGE_WIDTH_def)
qed

text \<open>
  C1 as stated does not hold: for an image of 3000 by 2000 pixels the resize step asks for
  height 682, the truncation of 682.67, where rounding gives 683.
\<close>

theorem resize_height_counterexample:
  "optimize_image demo_externals demo_photo = Inr (demo_photo\<lparr>width := 1024, height := 682\<rparr>) \<and>
   rounded_height demo_photo = 683"
proof -
  have "int_of_float (int_mul_float 2000 (int_truediv 1024 3000)) = 682"
    by code_simp
  then have "optimize_image demo_externals demo_photo = Inr (demo_photo\<lparr>width := 1024, height := 682\<rparr>)"
    by (simp add: optimize_image_def demo_externals_def demo_photo_def MAX_IMAGE_WIDTH_def)
  moreover have "round_half_even (2000 * 1024 / 3000) = 683"
    by code_simp
  then have "rounded_height demo_photo = 683"
    by (simp add: rounded_height_def demo_photo_def)
  ultimately show ?thesis by simp
qed

text \<open>
  C1, amended: an image at most 1024 pixels wide is returned as it is.  For a wider image
  (dimensions within the library's 31-bit range) the resize step asks the library for width
  exactly 1024 and height \<open>int(height * (1024 / width))\<close>, the double product truncated
  toward zero; this height is the floor of \<open>height * 1024 / width\<close>, or one less, and it is
  the floor whenever the quotient is not an integer.  An image the library returns for that
  request has exactly these dimensions.
\<close>

theorem optimize_image_dimensions:
  assumes "resize_contract ext"
    and "0 \<le> height im" and "height im < 2 ^ 31" and "width im < 2 ^ 31"
  shows "(width im \<le> 1024 \<longrightarrow> optimize_image ext im = Inr im) \<and>
    (1024 < width im \<longrightarrow>
       (\<exists>nh. optimize_image ext im = resize_lanczos ext im (1024, nh) \<and>
          nh = int_of_float (int_mul_float (height im) (int_truediv 1024 (width im))) \<and>
          height im * 1024 div width im - 1 \<le> nh \<and> nh \<le> height im * 1024 div width im \<and>
          (\<not> width im dvd height im * 1024 \<longrightarrow> nh = height im * 1024 div width im) \<and>
          (\<forall>r. optimize_image ext im = Inr r \<longrightarrow> width r = 1024 \<and> height r = nh)))"
proof (intro conjI impI)
  assume "width im \<le> 1024"
  then show "optimize_image ext im = Inr im"
    by (simp add: optimize_image_def MAX_IMAGE_WIDTH_def)
next
  assume wide: "1024 < width im"
  define nh where "nh = int_of_float (int_mul_float (height im) (int_truediv 1024 (width im)))"
  have call: "optimize_image ext im = resize_lanczos ext im (1024, nh)"
    using wide by (simp add: optimize_image_def MAX_IMAGE_WIDTH_def nh_def)
  have bounds: "height im * 1024 div width im - 1 \<le> nh \<and> nh \<le> height im * 1024 div width im \<and>
      (\<not> width im dvd height im * 1024 \<longrightarrow> nh = height im * 1024 div width im)"
    unfolding nh_def by (rule new_height_bounds [OF wide assms(2) assms(3)])
  have "width r = 1024 \<and> height r = nh" if "optimize_image ext im = Inr r" for r
    using that assms(1) call unfolding resize_contract_def by metis
  with call bounds nh_def
  show "\<exists>nh. optimize_image ext im = resize_lanczos ext im (1024, nh) \<and>
          nh = int_of_float (int_mul_float (height im) (int_truediv 1024 (width im))) \<and>
          height im * 1024 div width im - 1 \<le> nh \<and> nh \<le> height im * 1024 div width im \<and>
          (\<not> width im dvd height im * 1024 \<longrightarrow> nh = height im * 1024 div width im) \<and>
          (\<forall>r. optimize_image ext im = Inr r \<longrightarrow> width r = 1024 \<and> height r = nh)"
    by blast
qed

theorem optimize_image_dimensions_witness:
  "optimize_image demo_externals demo_thumbnail = Inr demo_thumbnail \<and>
   optimize_image demo_externals demo_photo = Inr (demo_photo\<lparr>width := 1024, height := 682\<rparr>)"
proof -
  have small: "0 \<le> height demo_thumbnail" "height demo_thumbnail < 2 ^ 31" "width demo_thumbnail < 2 ^ 31"
    "width demo_thumbnail \<le> 1024"
    by (simp_all add: demo_thumbnail_def)
  have photo: "0 \<le> height demo_photo" "height demo_photo < 2 ^ 31" "width demo_photo < 2 ^ 31"
    "1024 < width demo_photo" "\<not> width demo_photo dvd height demo_photo * 1024"
    "height demo_photo * 1024 div width demo_photo = 682"
    by (simp_all add: demo_photo_def)
  from optimize_image_dimensions [OF demo_resize_contract small(1-3)] small(4)
  have a: "optimize_image demo_externals demo_thumbnail = Inr demo_thumbnail"
    by blast
  from optimize_image_dimensions [OF demo_resize_contract photo(1-3)] photo(4)
  obtain nh where call: "optimize_image demo_externals demo_photo =
      resize_lanczos demo_externals demo_photo (1024, nh)"
    and floor: "\<not> width demo_photo dvd height demo_photo * 1024 \<longrightarrow>
      nh = height demo_photo * 1024 div width demo_photo"
    by blast
  from floor photo(5) photo(6) have "nh = 682"
    by blast
  with call have "optimize_image demo_externals demo_photo =
      resize_lanczos demo_externals demo_photo (1024, 682)"
    by (simp only:)
  then have b: "optimize_image demo_externals demo_photo = Inr (demo_photo\<lparr>width := 1024, height := 682\<rparr>)"
    by (simp add: demo_externals_def)
  from a b show ?thesis by simp
qed


end
